theory Spec2Isabelle
  imports Complex_Main
begin

section \<open>K-Means on embeddings (kmeans.ipynb)\<close>

text \<open>
  The notebook defines five functions over JAX arrays: \<open>initialize_centroids\<close>,
  \<open>compute_distances\<close>, \<open>assign_clusters\<close>, \<open>update_centroids\<close> and the driver
  \<open>kmeans\<close>, together with the module-level constant \<open>K = 2\<close>.

  A one-dimensional array is a list, a two-dimensional array a list of rows. JAX arrays
  are rectangular and \<open>jit\<close> fixes their shapes; the theorems below state the shape
  agreement they rely on (all rows of one length, one assignment per embedding).
\<close>

subsection \<open>Array elements\<close>

text \<open>
  An array element is a floating-point value: a finite number, one of the two infinities,
  or not-a-number. The two zeros are not told apart.
\<close>

datatype fval = Fin real | PInf | NInf | NaN

type_synonym array1 = "fval list"
type_synonym array2 = "fval list list"

fun isnan :: "fval \<Rightarrow> bool" where
  "isnan NaN = True"
| "isnan _ = False"

fun isfinite :: "fval \<Rightarrow> bool" where
  "isfinite (Fin _) = True"
| "isfinite _ = False"

subsection \<open>The arithmetic of the backend\<close>

text \<open>
  A reduction such as \<open>jnp.sum\<close> adds its operands in an order the library chooses. A
  plan is one such order: a tree of additions over the positions of the operands and
  the initial value zero.
\<close>

datatype plan = Init | Elem nat | Add plan plan

fun elems :: "plan \<Rightarrow> nat list" where
  "elems Init = []"
| "elems (Elem i) = [i]"
| "elems (Add p q) = elems p @ elems q"

text \<open>The plan that adds the operands one after the other, from the left.\<close>

fun sequential :: "nat \<Rightarrow> plan" where
  "sequential 0 = Init"
| "sequential (Suc n) = Add (sequential n) (Elem n)"

text \<open>
  Every arithmetic operation on finite values rounds its exact result and overflows to
  an infinity. A backend is a rounding function, its largest finite value, and a plan
  for every number of operands. All that is required of the rounding is what IEEE 754
  rounding to nearest has in every binary format: it is monotone and keeps zero. All
  that is required of a plan is that it adds every operand exactly once. The arrays of
  the notebook are \<open>float32\<close>, whose arithmetic is of this kind on every device.
\<close>

typedef backend =
  "{(r :: real \<Rightarrow> real, m :: real, p :: nat \<Rightarrow> plan).
      mono r \<and> r 0 = 0 \<and> 0 < m \<and>
      (\<forall>n. distinct (elems (p n)) \<and> set (elems (p n)) = {..<n})}"
proof -
  have "elems (sequential n) = [0..<n]" for n
    by (induction n) simp_all
  then show ?thesis
    by (intro exI [of _ "(\<lambda>x. x, 1, sequential)"]) (auto simp: mono_def)
qed

definition rounding :: "backend \<Rightarrow> real \<Rightarrow> real" where
  "rounding B = fst (Rep_backend B)"

definition largest :: "backend \<Rightarrow> real" where
  "largest B = fst (snd (Rep_backend B))"

definition order :: "backend \<Rightarrow> nat \<Rightarrow> plan" where
  "order B = snd (snd (Rep_backend B))"

text \<open>The value of an operation whose exact result is the real number \<open>x\<close>.\<close>

definition fin :: "backend \<Rightarrow> real \<Rightarrow> fval" where
  "fin B x =
     (let y = rounding B x
      in if largest B < y then PInf else if y < - largest B then NInf else Fin y)"

fun fneg :: "fval \<Rightarrow> fval" where
  "fneg (Fin x) = Fin (- x)"
| "fneg PInf = NInf"
| "fneg NInf = PInf"
| "fneg NaN = NaN"

fun fadd :: "backend \<Rightarrow> fval \<Rightarrow> fval \<Rightarrow> fval" where
  "fadd B NaN _ = NaN"
| "fadd B _ NaN = NaN"
| "fadd B PInf NInf = NaN"
| "fadd B NInf PInf = NaN"
| "fadd B PInf _ = PInf"
| "fadd B _ PInf = PInf"
| "fadd B NInf _ = NInf"
| "fadd B _ NInf = NInf"
| "fadd B (Fin x) (Fin y) = fin B (x + y)"

definition fsub :: "backend \<Rightarrow> fval \<Rightarrow> fval \<Rightarrow> fval" where
  "fsub B a b = fadd B a (fneg b)"

text \<open>\<open>x ** 2\<close>: the product of \<open>x\<close> with itself.\<close>

fun square :: "backend \<Rightarrow> fval \<Rightarrow> fval" where
  "square B (Fin x) = fin B (x * x)"
| "square B PInf = PInf"
| "square B NInf = PInf"
| "square B NaN = NaN"

text \<open>\<open>jnp.sqrt\<close>: not-a-number below zero.\<close>

fun fsqrt :: "backend \<Rightarrow> fval \<Rightarrow> fval" where
  "fsqrt B (Fin x) = (if x < 0 then NaN else fin B (sqrt x))"
| "fsqrt B PInf = PInf"
| "fsqrt B NInf = NaN"
| "fsqrt B NaN = NaN"

text \<open>
  True division. A zero divisor raises nothing: \<open>0 / 0\<close> is not-a-number and a non-zero
  finite value over zero is an infinity.
\<close>

fun fdiv :: "backend \<Rightarrow> fval \<Rightarrow> fval \<Rightarrow> fval" where
  "fdiv B NaN _ = NaN"
| "fdiv B _ NaN = NaN"
| "fdiv B (Fin x) (Fin y) =
     (if y = 0 then (if x = 0 then NaN else if 0 < x then PInf else NInf)
      else fin B (x / y))"
| "fdiv B (Fin x) _ = Fin 0"
| "fdiv B PInf (Fin y) = (if y < 0 then NInf else PInf)"
| "fdiv B NInf (Fin y) = (if y < 0 then PInf else NInf)"
| "fdiv B _ _ = NaN"

text \<open>The comparisons \<open><\<close>, \<open>==\<close> and \<open><=\<close>: false whenever an operand is not-a-number.\<close>

fun flt :: "fval \<Rightarrow> fval \<Rightarrow> bool" where
  "flt NaN _ = False"
| "flt _ NaN = False"
| "flt (Fin x) (Fin y) = (x < y)"
| "flt NInf NInf = False"
| "flt NInf _ = True"
| "flt _ NInf = False"
| "flt PInf _ = False"
| "flt _ PInf = True"

definition feq :: "fval \<Rightarrow> fval \<Rightarrow> bool" where
  "feq a b = (\<not> isnan a \<and> \<not> isnan b \<and> a = b)"

definition fle :: "fval \<Rightarrow> fval \<Rightarrow> bool" where
  "fle a b = (flt a b \<or> feq a b)"

subsection \<open>Library operations on arrays\<close>

text \<open>The additions of a plan, carried out on an array.\<close>

fun reduce :: "backend \<Rightarrow> array1 \<Rightarrow> plan \<Rightarrow> fval" where
  "reduce B xs Init = Fin 0"
| "reduce B xs (Elem i) = xs ! i"
| "reduce B xs (Add p q) = fadd B (reduce B xs p) (reduce B xs q)"

text \<open>
  \<open>jnp.sum\<close> of a one-dimensional array, by the backend's plan for its length; the sum
  of no elements is zero.
\<close>

definition fsum :: "backend \<Rightarrow> array1 \<Rightarrow> fval" where
  "fsum B xs = reduce B xs (order B (length xs))"

text \<open>The second extent of a two-dimensional array (\<open>shape[1]\<close>), read off its first row.\<close>

definition ncols :: "array2 \<Rightarrow> nat" where
  "ncols a = (case a of [] \<Rightarrow> 0 | r # _ \<Rightarrow> length r)"

text \<open>\<open>jnp.sum(a, axis=0)\<close>: the sum of every column.\<close>

definition sum_axis0 :: "backend \<Rightarrow> array2 \<Rightarrow> array1" where
  "sum_axis0 B a = map (\<lambda>d. fsum B (map (\<lambda>row. row ! d) a)) [0..<ncols a]"

text \<open>
  \<open>jnp.take(a, indices, axis=0)\<close>: the rows at the given indices. In the default
  mode an index past the end gives a row of not-a-number values.
\<close>

definition take_axis0 :: "array2 \<Rightarrow> nat list \<Rightarrow> array2" where
  "take_axis0 a indices =
     map (\<lambda>i. if i < length a then a ! i else replicate (ncols a) NaN) indices"

datatype error = ValueError | OverflowError | UnboundLocalError

text \<open>
  \<open>jnp.argmin\<close> of a one-dimensional array, as a scan from the left that carries the best
  value and its index: a later element replaces the best one only when it is strictly
  smaller, or when it is the first not-a-number (which then stays).
\<close>

fun argmin_scan :: "array1 \<Rightarrow> nat \<Rightarrow> fval \<Rightarrow> nat \<Rightarrow> nat" where
  "argmin_scan [] i best_val best_idx = best_idx"
| "argmin_scan (x # xs) i best_val best_idx =
     (if \<not> isnan best_val \<and> (isnan x \<or> flt x best_val)
      then argmin_scan xs (Suc i) x i
      else argmin_scan xs (Suc i) best_val best_idx)"

fun argmin1 :: "array1 \<Rightarrow> nat" where
  "argmin1 [] = 0"
| "argmin1 (x # xs) = argmin_scan xs 1 x 0"

text \<open>
  \<open>jnp.argmin(a, axis=-1)\<close> of an array with \<open>n\<close> columns: one index per row. The
  library raises \<open>ValueError\<close> when the reduced axis is empty.
\<close>

definition argmin :: "nat \<Rightarrow> array2 \<Rightarrow> error + nat list" where
  "argmin n a = (if n = 0 then Inl ValueError else Inr (map argmin1 a))"

subsection \<open>The random source\<close>

text \<open>
  \<open>jax.random\<close> is functional: a key is a value and every draw is a function of its
  key. The generator itself is outside the notebook, so its two functions the notebook
  reaches are parameters: \<open>key_of_seed\<close>, the key made from a seed, and
  \<open>permutation key n\<close>, the shuffled \<open>arange(n)\<close>.
\<close>

record 'key random =
  key_of_seed :: "int \<Rightarrow> 'key"
  permutation :: "'key \<Rightarrow> nat \<Rightarrow> nat list"

text \<open>
  \<open>random.PRNGKey(seed)\<close> converts a Python integer seed to a 64-bit signed integer
  first; a seed outside that range raises \<open>OverflowError\<close>.
\<close>

definition PRNGKey :: "'key random \<Rightarrow> int \<Rightarrow> error + 'key" where
  "PRNGKey rnd seed =
     (if - (2 ^ 63) \<le> seed \<and> seed < 2 ^ 63 then Inr (key_of_seed rnd seed)
      else Inl OverflowError)"

text \<open>
  \<open>random.choice(key, jnp.arange(n_inputs), shape=(n_draws,), replace=False)\<close> with the
  library's own checks, in its order: nothing to draw gives the empty array; an empty
  population and a sample larger than the population raise \<open>ValueError\<close>; otherwise
  the result is the first \<open>n_draws\<close> entries of the shuffled population.
\<close>

definition choice :: "'key random \<Rightarrow> 'key \<Rightarrow> nat \<Rightarrow> nat \<Rightarrow> error + nat list" where
  "choice rnd key n_inputs n_draws =
     (if n_draws = 0 then Inr []
      else if n_inputs = 0 then Inl ValueError
      else if n_inputs < n_draws then Inl ValueError
      else Inr (take n_draws (permutation rnd key n_inputs)))"

text \<open>A random source is sound when every shuffle is a permutation of \<open>0..<n\<close>.\<close>

definition shuffles :: "'key random \<Rightarrow> bool" where
  "shuffles rnd =
     (\<forall>key n. distinct (permutation rnd key n) \<and> set (permutation rnd key n) = {..<n})"

subsection \<open>The notebook's functions\<close>

text \<open>The module-level constant of the third cell.\<close>

definition K :: nat where
  "K = 2"

text \<open>
  \<open>initialize_centroids(embeddings, k, key)\<close>. The sample's shape is \<open>(K,)\<close>: the
  module-level constant; the parameter \<open>k\<close> is not read.
\<close>

definition initialize_centroids ::
    "'key random \<Rightarrow> array2 \<Rightarrow> int \<Rightarrow> 'key \<Rightarrow> error + array2" where
  "initialize_centroids rnd embeddings k key =
     (case choice rnd key (length embeddings) K of
        Inl e \<Rightarrow> Inl e
      | Inr indices \<Rightarrow> Inr (take_axis0 embeddings indices))"

text \<open>
  \<open>compute_distances(embedding, centroids)\<close>: the embedding is subtracted from every
  centroid row, the differences are squared, summed along the last axis, and rooted.
\<close>

definition compute_distances :: "backend \<Rightarrow> array1 \<Rightarrow> array2 \<Rightarrow> array1" where
  "compute_distances B embedding centroids =
     map (\<lambda>c. fsqrt B (fsum B (map (square B) (map2 (fsub B) embedding c)))) centroids"

text \<open>
  \<open>assign_clusters(embeddings, centroids)\<close>: \<open>compute_distances\<close> mapped over the
  embeddings, then the index of the least distance in every row.
\<close>

definition assign_clusters :: "backend \<Rightarrow> array2 \<Rightarrow> array2 \<Rightarrow> error + nat list" where
  "assign_clusters B embeddings centroids =
     (let distances = map (\<lambda>e. compute_distances B e centroids) embeddings
      in argmin (length centroids) distances)"

text \<open>
  \<open>update_centroids(embeddings, assignments, k)\<close>. The inner \<open>update_centroid(i)\<close>
  masks the embeddings of cluster \<open>i\<close>, replaces every other row by zeros, and divides
  the column sums by the number of rows in the mask, an integer converted to a
  floating-point value. It is mapped over \<open>jnp.arange(K)\<close>: again the module-level constant; the
  parameter \<open>k\<close> is not read.
\<close>

definition update_centroid :: "backend \<Rightarrow> array2 \<Rightarrow> nat list \<Rightarrow> nat \<Rightarrow> array1" where
  "update_centroid B embeddings assignments i =
     (let mask = map (\<lambda>a. a = i) assignments;
          masked_embeddings =
            map2 (\<lambda>m row. if m then row else map (\<lambda>_. Fin 0) row) mask embeddings
      in map (\<lambda>s. fdiv B s (fin B (real (length (filter id mask)))))
           (sum_axis0 B masked_embeddings))"

definition update_centroids :: "backend \<Rightarrow> array2 \<Rightarrow> nat list \<Rightarrow> int \<Rightarrow> array2" where
  "update_centroids B embeddings assignments k =
     map (update_centroid B embeddings assignments) [0..<K]"

text \<open>
  \<open>kmeans(embeddings, k, num_iters, seed)\<close>. \<open>range(num_iters)\<close> has
  \<open>nat num_iters\<close> elements (none for a negative count). The loop state is the pair of
  the local variables \<open>centroids\<close> and \<open>assignments\<close>; \<open>assignments\<close> is unbound
  until the body has run once, and returning an unbound local raises
  \<open>UnboundLocalError\<close>.
\<close>

fun kmeans_loop ::
    "backend \<Rightarrow> nat \<Rightarrow> array2 \<Rightarrow> int \<Rightarrow> array2 \<times> nat list option \<Rightarrow>
       error + array2 \<times> nat list option" where
  "kmeans_loop B 0 embeddings k st = Inr st"
| "kmeans_loop B (Suc n) embeddings k (centroids, assignments) =
     (case assign_clusters B embeddings centroids of
        Inl e \<Rightarrow> Inl e
      | Inr assignments' \<Rightarrow>
          kmeans_loop B n embeddings k
            (update_centroids B embeddings assignments' k, Some assignments'))"

definition kmeans ::
    "backend \<Rightarrow> 'key random \<Rightarrow> array2 \<Rightarrow> int \<Rightarrow> int \<Rightarrow> int \<Rightarrow>
       error + array2 \<times> nat list" where
  "kmeans B rnd embeddings k num_iters seed =
     (case PRNGKey rnd seed of
        Inl e \<Rightarrow> Inl e
      | Inr key \<Rightarrow>
          (case initialize_centroids rnd embeddings k key of
             Inl e \<Rightarrow> Inl e
           | Inr centroids0 \<Rightarrow>
               (case kmeans_loop B (nat num_iters) embeddings k (centroids0, None) of
                  Inl e \<Rightarrow> Inl e
                | Inr (centroids, None) \<Rightarrow> Inl UnboundLocalError
                | Inr (centroids, Some assignments) \<Rightarrow> Inr (centroids, assignments))))"

subsection \<open>The iteration as the specification words it\<close>

text \<open>
  The specification describes the run as two sequences: \<open>c\<^sub>0\<close> comes from the
  initializer, and for \<open>t = 1, 2, \<dots>\<close> the assignments \<open>a\<^sub>t\<close> are recomputed from
  \<open>c\<^bsub>t-1\<^esub>\<close> and the centroids \<open>c\<^sub>t\<close> from \<open>a\<^sub>t\<close>; the result is the pair
  \<open>(c\<^sub>n, a\<^sub>n)\<close> for \<open>n = num_iters\<close>. A failing step fails every later one.
\<close>

fun reference_centroids ::
    "backend \<Rightarrow> 'key random \<Rightarrow> array2 \<Rightarrow> int \<Rightarrow> int \<Rightarrow> nat \<Rightarrow> error + array2" where
  "reference_centroids B rnd embeddings k seed 0 =
     (case PRNGKey rnd seed of
        Inl e \<Rightarrow> Inl e
      | Inr key \<Rightarrow> initialize_centroids rnd embeddings k key)"
| "reference_centroids B rnd embeddings k seed (Suc t) =
     (case reference_centroids B rnd embeddings k seed t of
        Inl e \<Rightarrow> Inl e
      | Inr c \<Rightarrow>
          (case assign_clusters B embeddings c of
             Inl e \<Rightarrow> Inl e
           | Inr a \<Rightarrow> Inr (update_centroids B embeddings a k)))"

definition reference_assignments ::
    "backend \<Rightarrow> 'key random \<Rightarrow> array2 \<Rightarrow> int \<Rightarrow> int \<Rightarrow> nat \<Rightarrow> error + nat list" where
  "reference_assignments B rnd embeddings k seed t =
     (case reference_centroids B rnd embeddings k seed (t - 1) of
        Inl e \<Rightarrow> Inl e
      | Inr c \<Rightarrow> assign_clusters B embeddings c)"

definition kmeans_reference ::
    "backend \<Rightarrow> 'key random \<Rightarrow> array2 \<Rightarrow> int \<Rightarrow> int \<Rightarrow> int \<Rightarrow>
       error + array2 \<times> nat list" where
  "kmeans_reference B rnd embeddings k num_iters seed =
     (case reference_centroids B rnd embeddings k seed (nat num_iters) of
        Inl e \<Rightarrow> Inl e
      | Inr c \<Rightarrow>
          (case reference_assignments B rnd embeddings k seed (nat num_iters) of
             Inl e \<Rightarrow> Inl e
           | Inr a \<Rightarrow> Inr (c, a)))"

subsection \<open>Example data\<close>

text \<open>
  A backend with the largest finite value of \<open>float32\<close> whose rounding changes nothing
  and whose sums run from the left: it computes what \<open>float32\<close> computes wherever the
  exact results are representable, and it overflows where \<open>float32\<close> does. The
  centroids of the runs below are representable; the distances that are not are only
  compared with each other.
\<close>

definition max32 :: real where
  "max32 = (2 ^ 24 - 1) * 2 ^ 104"

definition exact32 :: backend where
  "exact32 = Abs_backend (\<lambda>x. x, max32, sequential)"

text \<open>
  A random source whose shuffle lists the even indices before the odd ones, and the four
  points of the specification's end-to-end scenario: the first two indices drawn are
  \<open>0\<close> and \<open>2\<close>, so the initial centroids are \<open>[0, 0]\<close> and \<open>[10, 0]\<close>.
\<close>

definition example_random :: "int random" where
  "example_random =
     \<lparr>key_of_seed = (\<lambda>seed. seed),
      permutation = (\<lambda>key n. filter even [0..<n] @ filter odd [0..<n])\<rparr>"

definition example_embeddings :: array2 where
  "example_embeddings = [[Fin 0, Fin 0], [Fin 0, Fin 1], [Fin 10, Fin 0], [Fin 10, Fin 1]]"

text \<open>
  Four points on a line on which one round moves the first centroid far enough for two
  points to change sides.
\<close>

definition lag_embeddings :: array2 where
  "lag_embeddings = [[Fin 0], [Fin 5], [Fin 12], [Fin (- 101)]]"

section \<open>Properties\<close>

subsection \<open>Floating-point arithmetic\<close>

lemma elems_sequential: "elems (sequential n) = [0..<n]"
  by (induction n) simp_all

lemma rounding_mono: "x \<le> y \<Longrightarrow> rounding B x \<le> rounding B y"
  using Rep_backend [of B] by (auto simp: rounding_def mono_def split: prod.splits)

lemma rounding_zero: "rounding B 0 = 0"
  using Rep_backend [of B] by (auto simp: rounding_def split: prod.splits)

lemma largest_pos: "0 < largest B"
  using Rep_backend [of B] by (auto simp: largest_def split: prod.splits)

lemma order_elems: "distinct (elems (order B n))" "set (elems (order B n)) = {..<n}"
  using Rep_backend [of B] by (auto simp: order_def split: prod.splits)

lemma fin_zero: "fin B 0 = Fin 0"
  using largest_pos [of B] by (simp add: fin_def rounding_zero)

lemma Rep_exact32: "Rep_backend exact32 = (\<lambda>x. x, max32, sequential)"
  unfolding exact32_def
  by (rule Abs_backend_inverse) (auto simp: mono_def max32_def elems_sequential)

lemma rounding_exact32: "rounding exact32 x = x"
  by (simp add: rounding_def Rep_exact32)

lemma largest_exact32: "largest exact32 = max32"
  by (simp add: largest_def Rep_exact32)

lemma order_exact32: "order exact32 n = sequential n"
  by (simp add: order_def Rep_exact32)

lemma fin_exact32:
  "fin exact32 x = (if max32 < x then PInf else if x < - max32 then NInf else Fin x)"
  by (simp add: fin_def rounding_exact32 largest_exact32)

lemma fsqrt_exact32:
  "fsqrt exact32 (Fin x) =
     (if x < 0 then NaN else if max32\<^sup>2 < x then PInf else Fin (sqrt x))"
proof -
  have m: "0 < max32"
    by (simp add: max32_def)
  then have "sqrt (max32\<^sup>2) = max32"
    by simp
  then have "max32 < sqrt x \<longleftrightarrow> sqrt (max32\<^sup>2) < sqrt x"
    by simp
  then have over: "max32 < sqrt x \<longleftrightarrow> max32\<^sup>2 < x"
    by (simp only: real_sqrt_less_iff)
  have "\<not> sqrt x < - max32" if "0 \<le> x"
    using m that real_sqrt_ge_zero [of x] by linarith
  then show ?thesis
    by (simp add: fin_exact32 over)
qed

text \<open>Evaluation of the arithmetic in the example backend.\<close>

lemmas exact32_eval =
  fin_exact32 fsqrt_exact32 max32_def fsub_def fsum_def order_exact32 sum_axis0_def
  ncols_def

subsection \<open>The example run\<close>

lemma example_key: "PRNGKey example_random 0 = Inr 0"
  by (simp add: PRNGKey_def example_random_def)

lemma example_initial:
  "initialize_centroids example_random example_embeddings k key =
     Inr [[Fin 0, Fin 0], [Fin 10, Fin 0]]"
  by (simp add: initialize_centroids_def choice_def K_def example_random_def
      example_embeddings_def take_axis0_def upt_conv_Cons)

lemma example_assign0:
  "assign_clusters exact32 example_embeddings [[Fin 0, Fin 0], [Fin 10, Fin 0]] =
     Inr [0, 0, 1, 1]"
  by (simp add: assign_clusters_def argmin_def compute_distances_def exact32_eval
      example_embeddings_def del: fsqrt.simps(1))

lemma example_update:
  "update_centroids exact32 example_embeddings [0, 0, 1, 1] k =
     [[Fin 0, Fin (1 / 2)], [Fin 10, Fin (1 / 2)]]"
  by (simp add: update_centroids_def update_centroid_def K_def exact32_eval
      example_embeddings_def upt_conv_Cons)

lemma example_assign1:
  "assign_clusters exact32 example_embeddings [[Fin 0, Fin (1 / 2)], [Fin 10, Fin (1 / 2)]] =
     Inr [0, 0, 1, 1]"
  by (simp add: assign_clusters_def argmin_def compute_distances_def exact32_eval
      example_embeddings_def del: fsqrt.simps(1))

lemma example_run1:
  "kmeans exact32 example_random example_embeddings k 1 0 =
     Inr ([[Fin 0, Fin (1 / 2)], [Fin 10, Fin (1 / 2)]], [0, 0, 1, 1])"
proof -
  have "kmeans_loop exact32 (Suc 0) example_embeddings k
        ([[Fin 0, Fin 0], [Fin 10, Fin 0]], None) =
      Inr ([[Fin 0, Fin (1 / 2)], [Fin 10, Fin (1 / 2)]], Some [0, 0, 1, 1])"
    by (simp only: kmeans_loop.simps example_assign0 example_update sum.case)
  then show ?thesis
    by (simp add: kmeans_def example_key example_initial)
qed

lemma example_run2:
  "kmeans exact32 example_random example_embeddings k 2 0 =
     Inr ([[Fin 0, Fin (1 / 2)], [Fin 10, Fin (1 / 2)]], [0, 0, 1, 1])"
proof -
  have "kmeans_loop exact32 (Suc (Suc 0)) example_embeddings k
        ([[Fin 0, Fin 0], [Fin 10, Fin 0]], None) =
      Inr ([[Fin 0, Fin (1 / 2)], [Fin 10, Fin (1 / 2)]], Some [0, 0, 1, 1])"
    by (simp only: kmeans_loop.simps example_assign0 example_update example_assign1 sum.case)
  then show ?thesis
    by (simp add: kmeans_def example_key example_initial numeral_2_eq_2)
qed

lemma lag_initial:
  "initialize_centroids example_random lag_embeddings k key = Inr [[Fin 0], [Fin 12]]"
  by (simp add: initialize_centroids_def choice_def K_def example_random_def
      lag_embeddings_def take_axis0_def upt_conv_Cons)

lemma lag_assign0:
  "assign_clusters exact32 lag_embeddings [[Fin 0], [Fin 12]] = Inr [0, 0, 1, 0]"
  by (simp add: assign_clusters_def argmin_def compute_distances_def exact32_eval
      lag_embeddings_def del: fsqrt.simps(1))

lemma lag_update:
  "update_centroids exact32 lag_embeddings [0, 0, 1, 0] k = [[Fin (- 32)], [Fin 12]]"
  by (simp add: update_centroids_def update_centroid_def K_def exact32_eval
      lag_embeddings_def upt_conv_Cons)

lemma lag_assign1:
  "assign_clusters exact32 lag_embeddings [[Fin (- 32)], [Fin 12]] = Inr [1, 1, 1, 0]"
  by (simp add: assign_clusters_def argmin_def compute_distances_def exact32_eval
      lag_embeddings_def del: fsqrt.simps(1))

lemma lag_run:
  "kmeans exact32 example_random lag_embeddings k 1 0 =
     Inr ([[Fin (- 32)], [Fin 12]], [0, 0, 1, 0])"
proof -
  have "kmeans_loop exact32 (Suc 0) lag_embeddings k ([[Fin 0], [Fin 12]], None) =
      Inr ([[Fin (- 32)], [Fin 12]], Some [0, 0, 1, 0])"
    by (simp only: kmeans_loop.simps lag_assign0 lag_update sum.case)
  then show ?thesis
    by (simp add: kmeans_def example_key lag_initial)
qed

text \<open>Where the exact square exceeds the largest finite value the distance is infinite.\<close>

lemma overflow_distance:
  "compute_distances exact32 [Fin (2 ^ 70), Fin 0] [[Fin (- (2 ^ 70)), Fin 0]] = [PInf]"
  by (simp add: compute_distances_def exact32_eval del: fsqrt.simps(1))

subsection \<open>The centroid initializer\<close>

lemma choice_results:
  "choice rnd key n d = Inl e \<Longrightarrow> e = ValueError \<and> d \<noteq> 0 \<and> n < d"
  by (auto simp: choice_def split: if_splits)

lemma initialize_centroids_small:
  "length es < K \<Longrightarrow> initialize_centroids rnd es k key = Inl ValueError"
  by (simp add: initialize_centroids_def choice_def K_def)

lemma initialize_centroids_draw:
  assumes "K \<le> length es"
  shows "initialize_centroids rnd es k key =
     Inr (take_axis0 es (take K (permutation rnd key (length es))))"
  using assms by (auto simp: initialize_centroids_def choice_def K_def)

lemma initialize_centroids_distinct:
  assumes "shuffles rnd" and "K \<le> length es"
  shows "\<exists>indices. initialize_centroids rnd es k key = Inr (map (\<lambda>i. es ! i) indices) \<and>
     indices = take K (permutation rnd key (length es)) \<and>
     length indices = K \<and> distinct indices \<and> (\<forall>i \<in> set indices. i < length es)"
proof -
  let ?p = "permutation rnd key (length es)"
  have d: "distinct ?p" and s: "set ?p = {..<length es}"
    using assms(1) by (simp_all add: shuffles_def)
  have "length ?p = length es"
    using distinct_card [OF d] by (simp add: s)
  then have len: "length (take K ?p) = K"
    using assms(2) by simp
  have range: "\<forall>i \<in> set (take K ?p). i < length es"
    using s by (auto dest: in_set_takeD)
  then have rows: "take_axis0 es (take K ?p) = map (\<lambda>i. es ! i) (take K ?p)"
    by (simp add: take_axis0_def)
  have "initialize_centroids rnd es k key = Inr (map (\<lambda>i. es ! i) (take K ?p))"
    using initialize_centroids_draw [OF assms(2), of rnd k key] by (simp only: rows)
  then show ?thesis
    using len range d by simp
qed

text \<open>
  Claim C3 at the input \<open>k = 3\<close> with three embeddings: the initializer returns two
  centroids, the rows at the first two shuffled indices, where the claim (and the
  docstring: "initializes k centroids") says three. The number of centroids is the
  module-level \<open>K\<close>, as \<open>initialize_centroids_distinct\<close> shows for every dataset
  of at least \<open>K\<close> embeddings.
\<close>

theorem initialize_centroids_ignores_k:
  "initialize_centroids example_random [[Fin 0], [Fin 1], [Fin 2]] 3 0 =
     Inr [[Fin 0], [Fin 2]]"
  by (simp add: initialize_centroids_def choice_def K_def example_random_def
      take_axis0_def upt_conv_Cons)

text \<open>
  The notebook checks no precondition itself. The sampling library refuses a dataset of
  fewer than \<open>K\<close> embeddings, the empty one included, with \<open>ValueError\<close>; the run then
  fails in the initializer whatever \<open>num_iters\<close> is, the loop and the final \<open>return\<close>
  not being reached. A seed that is no 64-bit integer fails before that.
\<close>

lemma kmeans_seed_overflow:
  "seed < - (2 ^ 63) \<or> 2 ^ 63 \<le> seed \<Longrightarrow>
   kmeans B rnd embeddings k num_iters seed = Inl OverflowError"
  by (auto simp: kmeans_def PRNGKey_def)

lemma kmeans_fails_before_loop:
  assumes "- (2 ^ 63) \<le> seed" and "seed < 2 ^ 63"
  shows "kmeans B rnd [] k num_iters seed = Inl ValueError"
    and "length embeddings < K \<Longrightarrow>
         kmeans B rnd embeddings k num_iters seed = Inl ValueError"
  using assms
  by (simp_all add: kmeans_def PRNGKey_def initialize_centroids_small K_def)

text \<open>
  Claim C6 at the input \<open>k = 5\<close> with the four example points: the cluster count
  exceeds the number of embeddings, and the run returns two centroids and four
  assignments where the claim says it fails before any computation. The count the
  sampling library compares with the size of the dataset is the module-level \<open>K\<close>, not
  the parameter \<open>k\<close> that the docstrings call the number of clusters.
\<close>

theorem kmeans_accepts_k_above_n:
  "length example_embeddings = 4 \<and>
   kmeans exact32 example_random example_embeddings 5 1 0 =
     Inr ([[Fin 0, Fin (1 / 2)], [Fin 10, Fin (1 / 2)]], [0, 0, 1, 1])"
  using example_run1 [of 5]
  by (simp add: example_embeddings_def)

subsection \<open>The distance primitive\<close>

text \<open>
  A value is non-negative when \<open>0 <= v\<close> holds of it: a finite number that is not
  below zero, or plus infinity. Sums, squares and roots keep this, whatever the rounding
  and the order of the additions; and not-a-number, once in, stays.
\<close>

lemma nonneg_iff: "fle (Fin 0) v \<longleftrightarrow> v = PInf \<or> (\<exists>x. v = Fin x \<and> 0 \<le> x)"
  by (cases v) (auto simp: fle_def feq_def)

lemma fin_nonneg: "0 \<le> x \<Longrightarrow> fle (Fin 0) (fin B x)"
  using rounding_mono [of 0 x B] largest_pos [of B]
  by (auto simp: fin_def Let_def rounding_zero nonneg_iff)

lemma fin_not_nan: "\<not> isnan (fin B x)"
  by (simp add: fin_def Let_def)

lemma fsub_finite: "isfinite a \<Longrightarrow> isfinite b \<Longrightarrow> \<not> isnan (fsub B a b)"
  by (cases a; cases b) (simp_all add: fsub_def fin_not_nan)

lemma square_nonneg: "\<not> isnan v \<Longrightarrow> fle (Fin 0) (square B v)"
  by (cases v) (simp_all add: fin_nonneg, simp_all add: fle_def)

lemma fadd_nonneg: "fle (Fin 0) a \<Longrightarrow> fle (Fin 0) b \<Longrightarrow> fle (Fin 0) (fadd B a b)"
  by (auto simp: nonneg_iff [of a] nonneg_iff [of b] fin_nonneg, simp_all add: fle_def)

lemma fsqrt_nonneg: "fle (Fin 0) a \<Longrightarrow> fle (Fin 0) (fsqrt B a)"
  by (auto simp: nonneg_iff [of a] fin_nonneg, simp_all add: fle_def)

lemma reduce_nonneg:
  "\<forall>i \<in> set (elems p). fle (Fin 0) (xs ! i) \<Longrightarrow> fle (Fin 0) (reduce B xs p)"
  by (induction p) (simp_all add: fadd_nonneg, simp add: fle_def feq_def)

lemma fsum_nonneg:
  assumes "\<forall>x \<in> set xs. fle (Fin 0) x"
  shows "fle (Fin 0) (fsum B xs)"
  unfolding fsum_def
  using assms by (intro reduce_nonneg) (simp add: order_elems)

lemma fadd_nan: "isnan a \<or> isnan b \<Longrightarrow> isnan (fadd B a b)"
  by (cases a; cases b) auto

lemma fsub_nan: "isnan a \<or> isnan b \<Longrightarrow> isnan (fsub B a b)"
  by (cases a; cases b) (auto simp: fsub_def)

lemma square_nan: "isnan a \<Longrightarrow> isnan (square B a)"
  by (cases a) auto

lemma fsqrt_nan: "isnan a \<Longrightarrow> isnan (fsqrt B a)"
  by (cases a) auto

lemma reduce_nan:
  "\<exists>i \<in> set (elems p). isnan (xs ! i) \<Longrightarrow> isnan (reduce B xs p)"
proof (induction p)
  case (Add p q)
  then have "isnan (reduce B xs p) \<or> isnan (reduce B xs q)"
    by auto
  then show ?case
    by (simp add: fadd_nan)
qed simp_all

lemma fsum_nan:
  assumes "i < length xs" and "isnan (xs ! i)"
  shows "isnan (fsum B xs)"
  unfolding fsum_def
  using assms by (intro reduce_nan) (auto simp: order_elems)

lemma map2_conv_nth:
  "length xs = D \<Longrightarrow> length ys = D \<Longrightarrow> map2 f xs ys = map (\<lambda>d. f (xs ! d) (ys ! d)) [0..<D]"
  by (auto simp: list_eq_iff_nth_eq)

lemma squared_differences:
  assumes "length e = D" and "length c = D"
  shows "map (square B) (map2 (fsub B) e c) =
         map (\<lambda>d. square B (fsub B (e ! d) (c ! d))) [0..<D]"
  by (simp add: map2_conv_nth [OF assms])

lemma tie_distances:
  "compute_distances exact32 [Fin 1, Fin 0] [[Fin 0, Fin 0], [Fin 2, Fin 0]] =
     [Fin 1, Fin 1]"
  by (simp add: compute_distances_def exact32_eval del: fsqrt.simps(1))

lemma nan_distances:
  "compute_distances exact32 [Fin 1] [[Fin 1], [NaN]] = [Fin 0, NaN]"
  by (simp add: compute_distances_def exact32_eval del: fsqrt.simps(1))

lemma tie_assignment:
  "assign_clusters exact32 [[Fin 1, Fin 0]] [[Fin 0, Fin 0], [Fin 2, Fin 0]] = Inr [0]"
  by (simp add: assign_clusters_def argmin_def tie_distances)

text \<open>
  Claim C7, as the code has it. For an embedding and \<open>K\<close> centroids of one dimension
  \<open>D\<close>, \<open>compute_distances\<close> returns exactly \<open>K\<close> values, the \<open>i\<close>-th being the root
  of the sum over the \<open>D\<close> dimensions of the squared differences, every operation
  rounded and overflowing to infinity as the backend does. When every component is
  finite, every value is non-negative: a finite number that is not below zero, or plus
  infinity. When a component of the embedding or of centroid \<open>i\<close> is not-a-number, so
  is the \<open>i\<close>-th value. The function is pure: it is a function of its two arguments.
\<close>

theorem compute_distances_euclidean:
  assumes "length e = D" and "\<forall>c \<in> set cs. length c = D"
  shows "length (compute_distances B e cs) = length cs \<and>
    (\<forall>i<length cs. compute_distances B e cs ! i =
        fsqrt B (fsum B (map (\<lambda>d. square B (fsub B (e ! d) (cs ! i ! d))) [0..<D]))) \<and>
    (list_all isfinite e \<and> list_all (list_all isfinite) cs \<longrightarrow>
       (\<forall>i<length cs. fle (Fin 0) (compute_distances B e cs ! i))) \<and>
    (\<forall>i<length cs. (\<exists>d<D. isnan (e ! d) \<or> isnan (cs ! i ! d)) \<longrightarrow>
       isnan (compute_distances B e cs ! i))"
proof -
  let ?sq = "\<lambda>i d. square B (fsub B (e ! d) (cs ! i ! d))"
  have formula: "compute_distances B e cs ! i = fsqrt B (fsum B (map (?sq i) [0..<D]))"
    if "i < length cs" for i
  proof -
    have len: "length (cs ! i) = D"
      using assms(2) that by simp
    have "compute_distances B e cs ! i =
        fsqrt B (fsum B (map (square B) (map2 (fsub B) e (cs ! i))))"
      using that by (simp only: compute_distances_def nth_map)
    then show ?thesis
      by (simp only: squared_differences [OF assms(1) len])
  qed
  have nonneg: "fle (Fin 0) (compute_distances B e cs ! i)"
    if "i < length cs" and "list_all isfinite e" and "list_all (list_all isfinite) cs" for i
  proof -
    have len: "length (cs ! i) = D"
      using assms(2) that(1) by simp
    have "fle (Fin 0) (?sq i d)" if "d < D" for d
    proof -
      have "isfinite (e ! d)" "isfinite (cs ! i ! d)"
        using \<open>d < D\<close> assms(1) len \<open>i < length cs\<close> \<open>list_all isfinite e\<close>
          \<open>list_all (list_all isfinite) cs\<close>
        by (simp_all add: list_all_length)
      then show ?thesis
        by (intro square_nonneg fsub_finite)
    qed
    then have "\<forall>x \<in> set (map (?sq i) [0..<D]). fle (Fin 0) x"
      by auto
    then show ?thesis
      unfolding formula [OF that(1)] by (intro fsqrt_nonneg fsum_nonneg)
  qed
  have nan: "isnan (compute_distances B e cs ! i)"
    if "i < length cs" and "d < D" and "isnan (e ! d) \<or> isnan (cs ! i ! d)" for i d
  proof -
    have "isnan (?sq i d)"
      using that(3) by (intro square_nan fsub_nan)
    then have "isnan (map (?sq i) [0..<D] ! d)"
      using that(2) by simp
    then have "isnan (fsum B (map (?sq i) [0..<D]))"
      using that(2) by (intro fsum_nan [of d]) simp_all
    then show ?thesis
      unfolding formula [OF that(1)] by (rule fsqrt_nan)
  qed
  have "length (compute_distances B e cs) = length cs"
    by (simp add: compute_distances_def)
  with formula nonneg nan show ?thesis
    by blast
qed

theorem compute_distances_euclidean_witness:
  "length [Fin 1, Fin 0] = 2 \<and>
   list_all (\<lambda>c. length c = 2) [[Fin 0, Fin 0], [Fin 2, Fin 0]] \<and>
   list_all isfinite [Fin 1, Fin 0] \<and>
   list_all (list_all isfinite) [[Fin 0, Fin 0], [Fin 2, Fin 0]] \<and>
   compute_distances exact32 [Fin 1, Fin 0] [[Fin 0, Fin 0], [Fin 2, Fin 0]] =
     [Fin 1, Fin 1] \<and>
   fle (Fin 0) (compute_distances exact32 [Fin 1, Fin 0] [[Fin 0, Fin 0], [Fin 2, Fin 0]] ! 1) \<and>
   length [Fin 1] = 1 \<and> list_all (\<lambda>c. length c = 1) [[Fin 1], [NaN]] \<and>
   isnan ([NaN] ! 0) \<and>
   isnan (compute_distances exact32 [Fin 1] [[Fin 1], [NaN]] ! 1)"
  using compute_distances_euclidean
      [of "[Fin 1, Fin 0]" 2 "[[Fin 0, Fin 0], [Fin 2, Fin 0]]" exact32]
    compute_distances_euclidean [of "[Fin 1]" 1 "[[Fin 1], [NaN]]" exact32]
  by (simp add: tie_distances nan_distances fle_def feq_def)

text \<open>
  The claim as stated, for every collection of centroids, fails where a component is
  not-a-number: the distance is then not-a-number, which is not a non-negative number.
  The update step itself produces such a centroid for an empty cluster.
\<close>

theorem compute_distances_nan:
  "update_centroids exact32 [[Fin 1]] [0] 2 = [[Fin 1], [NaN]] \<and>
   compute_distances exact32 [Fin 1] [[Fin 1], [NaN]] = [Fin 0, NaN] \<and>
   \<not> fle (Fin 0) (compute_distances exact32 [Fin 1] [[Fin 1], [NaN]] ! 1)"
  by (simp add: update_centroids_def update_centroid_def K_def upt_conv_Cons
      compute_distances_def exact32_eval fle_def feq_def del: fsqrt.simps(1))

subsection \<open>The iteration driver\<close>

text \<open>The last round of the loop, split off at the end instead of the front.\<close>

lemma kmeans_loop_snoc:
  "kmeans_loop B (Suc n) es k st =
     (case kmeans_loop B n es k st of
        Inl e \<Rightarrow> Inl e
      | Inr (c, a) \<Rightarrow>
          (case assign_clusters B es c of
             Inl e \<Rightarrow> Inl e
           | Inr a' \<Rightarrow> Inr (update_centroids B es a' k, Some a')))"
proof (induction n arbitrary: st)
  case 0
  show ?case by (cases st) (simp split: sum.splits)
next
  case (Suc n)
  obtain c a where st: "st = (c, a)" by (cases st)
  show ?case
  proof (cases "assign_clusters B es c")
    case (Inl e)
    then show ?thesis by (simp add: st)
  next
    case (Inr a')
    let ?st' = "(update_centroids B es a' k, Some a')"
    have step: "kmeans_loop B (Suc m) es k st = kmeans_loop B m es k ?st'" for m
      by (simp add: st Inr)
    show ?thesis
      unfolding step by (rule Suc.IH)
  qed
qed

lemma kmeans_loop_centroids:
  "map_sum id fst (kmeans_loop B n es k (c0, a0)) =
     (case n of
        0 \<Rightarrow> Inr c0
      | Suc m \<Rightarrow>
          (case map_sum id fst (kmeans_loop B m es k (c0, a0)) of
             Inl e \<Rightarrow> Inl e
           | Inr c \<Rightarrow>
               (case assign_clusters B es c of
                  Inl e \<Rightarrow> Inl e
                | Inr a \<Rightarrow> Inr (update_centroids B es a k))))"
  by (cases n)
    (simp_all add: kmeans_loop_snoc split: sum.splits prod.splits del: kmeans_loop.simps(2))

lemma loop_reference_centroids:
  assumes "PRNGKey rnd seed = Inr key"
    and "initialize_centroids rnd es k key = Inr c0"
  shows "map_sum id fst (kmeans_loop B n es k (c0, a0)) =
         reference_centroids B rnd es k seed n"
proof (induction n)
  case 0
  show ?case by (simp add: assms)
next
  case (Suc n)
  show ?case
    by (subst kmeans_loop_centroids) (simp only: Suc.IH nat.case reference_centroids.simps)
qed

text \<open>
  Claim C1. For every dataset, cluster count, seed and every \<open>num_iters \<ge> 1\<close>, \<open>kmeans\<close>
  returns what the reference iteration returns: the centroids are initialised once, every
  one of the \<open>num_iters\<close> rounds recomputes the assignments from the current centroids and
  then the centroids from those assignments, and the result is the pair
  \<open>(c\<^sub>n, a\<^sub>n)\<close>, whose assignments were computed against \<open>c\<^bsub>n-1\<^esub>\<close>.
\<close>

theorem kmeans_reference_loop:
  assumes "1 \<le> num_iters"
  shows "kmeans B rnd embeddings k num_iters seed =
           kmeans_reference B rnd embeddings k num_iters seed"
proof -
  obtain n where n: "nat num_iters = Suc n"
    using assms by (cases "nat num_iters") auto
  show ?thesis
  proof (cases "PRNGKey rnd seed")
    case (Inl e)
    have "reference_centroids B rnd embeddings k seed t = Inl e" for t
      by (induction t) (simp_all add: Inl)
    then show ?thesis
      by (simp add: kmeans_def kmeans_reference_def Inl)
  next
    case key: (Inr key)
    show ?thesis
    proof (cases "initialize_centroids rnd embeddings k key")
      case (Inl e)
      have "reference_centroids B rnd embeddings k seed t = Inl e" for t
        by (induction t) (simp_all add: key Inl)
      then show ?thesis
        by (simp add: kmeans_def kmeans_reference_def key Inl)
    next
      case init: (Inr c0)
      note ref = loop_reference_centroids [OF key init, of B n None, symmetric]
      show ?thesis
        unfolding kmeans_def kmeans_reference_def reference_assignments_def n
        by (simp add: key init kmeans_loop_snoc ref split: sum.splits prod.splits
            del: kmeans_loop.simps(2))
    qed
  qed
qed

text \<open>
  On the four points of \<open>lag_embeddings\<close> one round returns the assignments
  \<open>[0, 0, 1, 0]\<close>, computed against the initial centroids, although the returned
  centroids would assign \<open>[1, 1, 1, 0]\<close>.
\<close>

theorem kmeans_reference_loop_witness:
  "(1::int) \<le> 2 \<and>
   kmeans_reference exact32 example_random example_embeddings 2 2 0 =
     Inr ([[Fin 0, Fin (1 / 2)], [Fin 10, Fin (1 / 2)]], [0, 0, 1, 1]) \<and>
   (1::int) \<le> 1 \<and>
   kmeans_reference exact32 example_random lag_embeddings 2 1 0 =
     Inr ([[Fin (- 32)], [Fin 12]], [0, 0, 1, 0]) \<and>
   assign_clusters exact32 lag_embeddings [[Fin (- 32)], [Fin 12]] = Inr [1, 1, 1, 0]"
  using kmeans_reference_loop [of 2 exact32 example_random example_embeddings 2 0]
    kmeans_reference_loop [of 1 exact32 example_random lag_embeddings 2 0]
    example_run2 [of 2] lag_run [of 2] lag_assign1
  by simp

text \<open>
  Claim C10. With \<open>num_iters = 0\<close> the run never returns a pair: the loop body does not
  run, \<open>assignments\<close> stays unbound, and the \<open>return\<close> raises (unless the key or the
  initializer has already raised). A pair is returned only when \<open>num_iters \<ge> 1\<close>.
\<close>

theorem kmeans_zero_iterations:
  "(\<exists>e. kmeans B rnd embeddings k 0 seed = Inl e) \<and>
   (\<forall>key c. PRNGKey rnd seed = Inr key \<and>
      initialize_centroids rnd embeddings k key = Inr c \<longrightarrow>
      kmeans B rnd embeddings k 0 seed = Inl UnboundLocalError) \<and>
   (\<forall>r. kmeans B rnd embeddings k num_iters seed = Inr r \<longrightarrow> 1 \<le> num_iters)"
proof -
  have zero: "kmeans B rnd embeddings k n seed =
      (case PRNGKey rnd seed of
         Inl e \<Rightarrow> Inl e
       | Inr key \<Rightarrow>
           (case initialize_centroids rnd embeddings k key of
              Inl e \<Rightarrow> Inl e | Inr c \<Rightarrow> Inl UnboundLocalError))"
    if "nat n = 0" for n
    using that by (simp add: kmeans_def split: sum.splits)
  have "\<exists>e. kmeans B rnd embeddings k 0 seed = Inl e"
    by (simp add: zero split: sum.splits)
  moreover have "\<forall>key c. PRNGKey rnd seed = Inr key \<and>
      initialize_centroids rnd embeddings k key = Inr c \<longrightarrow>
      kmeans B rnd embeddings k 0 seed = Inl UnboundLocalError"
    by (simp add: zero)
  moreover have "1 \<le> num_iters" if "kmeans B rnd embeddings k num_iters seed = Inr r" for r
  proof (rule ccontr)
    assume "\<not> 1 \<le> num_iters"
    then have "nat num_iters = 0" by simp
    from that zero [OF this] show False
      by (simp split: sum.splits)
  qed
  ultimately show ?thesis by blast
qed

theorem kmeans_zero_iterations_witness:
  "kmeans exact32 example_random example_embeddings 2 0 0 = Inl UnboundLocalError \<and>
   kmeans exact32 example_random example_embeddings 2 1 0 =
     Inr ([[Fin 0, Fin (1 / 2)], [Fin 10, Fin (1 / 2)]], [0, 0, 1, 1]) \<and>
   (1::int) \<le> 1"
  using kmeans_zero_iterations [of exact32 example_random example_embeddings 2 0 1]
    example_key example_initial [of 2 0] example_run1 [of 2]
  by simp

subsection \<open>The assignment step\<close>

lemma argmin_scan_bound:
  "best_idx < i \<Longrightarrow> argmin_scan xs i best_val best_idx < i + length xs"
proof (induction xs arbitrary: i best_val best_idx)
  case Nil
  then show ?case by simp
next
  case (Cons x xs)
  have "argmin_scan xs (Suc i) v j < i + length (x # xs)" if "j < Suc i" for v j
    using Cons.IH [OF that, of v] by simp
  with Cons.prems show ?case by simp
qed

lemma argmin1_less: "xs \<noteq> [] \<Longrightarrow> argmin1 xs < length xs"
  using argmin_scan_bound [of 0 1] by (cases xs) auto

lemma length_compute_distances: "length (compute_distances B e cs) = length cs"
  by (simp add: compute_distances_def)

text \<open>
  Claim C4. For a non-empty collection of centroids the assignment step returns one
  index per embedding, and every index is below the number of centroids.
\<close>

theorem assign_clusters_valid_indices:
  assumes "centroids \<noteq> []"
  shows "\<exists>a. assign_clusters B embeddings centroids = Inr a \<and>
           length a = length embeddings \<and> (\<forall>i \<in> set a. i < length centroids)"
proof -
  let ?a = "map (\<lambda>e. argmin1 (compute_distances B e centroids)) embeddings"
  have "assign_clusters B embeddings centroids = Inr ?a"
    using assms by (simp add: assign_clusters_def argmin_def comp_def)
  moreover have "i < length centroids" if "i \<in> set ?a" for i
  proof -
    from that obtain e where "i = argmin1 (compute_distances B e centroids)" by auto
    moreover have "compute_distances B e centroids \<noteq> []"
      using assms by (simp add: compute_distances_def)
    ultimately show ?thesis
      using argmin1_less [of "compute_distances B e centroids"]
      by (simp add: length_compute_distances)
  qed
  ultimately show ?thesis by simp
qed

theorem assign_clusters_valid_indices_witness:
  "[[Fin 0, Fin 0], [Fin 10, Fin 0]] \<noteq> [] \<and>
   assign_clusters exact32 example_embeddings [[Fin 0, Fin 0], [Fin 10, Fin 0]] =
     Inr [0, 0, 1, 1] \<and>
   length [0, 0, 1, 1 :: nat] = length example_embeddings \<and>
   list_all (\<lambda>i. i < length [[Fin 0, Fin 0], [Fin 10, Fin 0]]) [0, 0, 1, 1 :: nat]"
proof -
  have len: "length example_embeddings = 4"
    by (simp add: example_embeddings_def)
  show ?thesis
    using assign_clusters_valid_indices
      [of "[[Fin 0, Fin 0], [Fin 10, Fin 0]]" exact32 example_embeddings]
    by (simp add: example_assign0 len)
qed

text \<open>
  The comparisons are a linear order on the values other than not-a-number, and the scan
  of \<open>jnp.argmin\<close> over such values ends at the first index of the least one.
\<close>

lemma flt_trans: "flt a b \<Longrightarrow> flt b c \<Longrightarrow> flt a c"
  by (cases a; cases b; cases c) simp_all

lemma flt_irrefl: "\<not> flt a a"
  by (cases a) simp_all

lemma flt_asym: "flt a b \<Longrightarrow> \<not> flt b a"
  by (cases a; cases b) simp_all

lemma fle_refl: "\<not> isnan a \<Longrightarrow> fle a a"
  by (simp add: fle_def feq_def)

lemma flt_imp_fle: "flt a b \<Longrightarrow> fle a b"
  by (simp add: fle_def)

lemma not_flt_imp_fle: "\<not> isnan a \<Longrightarrow> \<not> isnan b \<Longrightarrow> \<not> flt a b \<Longrightarrow> fle b a"
  by (cases a; cases b) (auto simp: fle_def feq_def)

lemma fle_not_nan: "fle a b \<Longrightarrow> \<not> isnan a \<and> \<not> isnan b"
  by (cases a; cases b) (auto simp: fle_def feq_def)

lemma flt_fle_trans: "flt a b \<Longrightarrow> fle b c \<Longrightarrow> flt a c"
  by (auto simp: fle_def feq_def intro: flt_trans)

lemma fle_flt_trans: "fle a b \<Longrightarrow> flt b c \<Longrightarrow> flt a c"
  by (auto simp: fle_def feq_def intro: flt_trans)

lemma fle_trans: "fle a b \<Longrightarrow> fle b c \<Longrightarrow> fle a c"
  by (auto simp: fle_def feq_def intro: flt_trans)

lemma fle_antisym: "fle a b \<Longrightarrow> fle b a \<Longrightarrow> feq a b"
  by (auto simp: fle_def feq_def dest: flt_asym)

lemma fle_not_flt: "fle a b \<Longrightarrow> \<not> flt b a"
  by (auto simp: fle_def feq_def flt_irrefl dest: flt_asym)

lemma argmin_scan_spec:
  assumes "\<not> isnan bv" and "\<forall>x \<in> set xs. \<not> isnan x"
  shows "(argmin_scan xs i bv bi = bi \<and> (\<forall>x \<in> set xs. fle bv x)) \<or>
         (\<exists>j<length xs. argmin_scan xs i bv bi = i + j \<and> flt (xs ! j) bv \<and>
            (\<forall>l<j. flt (xs ! j) (xs ! l)) \<and> (\<forall>l<length xs. fle (xs ! j) (xs ! l)))"
  using assms
proof (induction xs arbitrary: i bv bi)
  case Nil
  then show ?case by simp
next
  case (Cons x xs)
  from Cons.prems have x: "\<not> isnan x" and xs: "\<forall>y \<in> set xs. \<not> isnan y"
    by simp_all
  show ?case
  proof (cases "flt x bv")
    case True
    have step: "argmin_scan (x # xs) i bv bi = argmin_scan xs (Suc i) x i"
      using True Cons.prems(1) by simp
    from Cons.IH [OF x xs, of "Suc i" i]
    consider (keep) "argmin_scan xs (Suc i) x i = i" "\<forall>y \<in> set xs. fle x y"
      | (later) j where "j < length xs" "argmin_scan xs (Suc i) x i = Suc i + j"
          "flt (xs ! j) x" "\<forall>l<j. flt (xs ! j) (xs ! l)" "\<forall>l<length xs. fle (xs ! j) (xs ! l)"
      by blast
    then show ?thesis
    proof cases
      case keep
      have "\<forall>l<length (x # xs). fle ((x # xs) ! 0) ((x # xs) ! l)"
      proof (intro allI impI)
        fix l assume "l < length (x # xs)"
        then show "fle ((x # xs) ! 0) ((x # xs) ! l)"
          using keep(2) x by (cases l) (simp_all add: fle_refl)
      qed
      then have "0 < length (x # xs) \<and> argmin_scan (x # xs) i bv bi = i + 0 \<and>
          flt ((x # xs) ! 0) bv \<and> (\<forall>l<0. flt ((x # xs) ! 0) ((x # xs) ! l)) \<and>
          (\<forall>l<length (x # xs). fle ((x # xs) ! 0) ((x # xs) ! l))"
        using step keep(1) True by simp
      then show ?thesis by blast
    next
      case later
      have a: "flt ((x # xs) ! Suc j) bv"
        using later(3) True by (simp add: flt_trans [of _ x])
      have b: "\<forall>l<Suc j. flt ((x # xs) ! Suc j) ((x # xs) ! l)"
      proof (intro allI impI)
        fix l assume "l < Suc j"
        then show "flt ((x # xs) ! Suc j) ((x # xs) ! l)"
          using later(3,4) by (cases l) simp_all
      qed
      have c: "\<forall>l<length (x # xs). fle ((x # xs) ! Suc j) ((x # xs) ! l)"
      proof (intro allI impI)
        fix l assume "l < length (x # xs)"
        then show "fle ((x # xs) ! Suc j) ((x # xs) ! l)"
          using later(3,5) by (cases l) (simp_all add: flt_imp_fle)
      qed
      have "Suc j < length (x # xs) \<and> argmin_scan (x # xs) i bv bi = i + Suc j"
        using later(1,2) step by simp
      with a b c show ?thesis by blast
    qed
  next
    case False
    have step: "argmin_scan (x # xs) i bv bi = argmin_scan xs (Suc i) bv bi"
      using False x by simp
    have bx: "fle bv x"
      using not_flt_imp_fle [OF x Cons.prems(1) False] .
    from Cons.IH [OF Cons.prems(1) xs, of "Suc i" bi]
    consider (keep) "argmin_scan xs (Suc i) bv bi = bi" "\<forall>y \<in> set xs. fle bv y"
      | (later) j where "j < length xs" "argmin_scan xs (Suc i) bv bi = Suc i + j"
          "flt (xs ! j) bv" "\<forall>l<j. flt (xs ! j) (xs ! l)" "\<forall>l<length xs. fle (xs ! j) (xs ! l)"
      by blast
    then show ?thesis
    proof cases
      case keep
      then show ?thesis using step bx by simp
    next
      case later
      have jx: "flt (xs ! j) x"
        using flt_fle_trans [OF later(3) bx] .
      have a: "flt ((x # xs) ! Suc j) bv"
        using later(3) by simp
      have b: "\<forall>l<Suc j. flt ((x # xs) ! Suc j) ((x # xs) ! l)"
      proof (intro allI impI)
        fix l assume "l < Suc j"
        then show "flt ((x # xs) ! Suc j) ((x # xs) ! l)"
          using jx later(4) by (cases l) simp_all
      qed
      have c: "\<forall>l<length (x # xs). fle ((x # xs) ! Suc j) ((x # xs) ! l)"
      proof (intro allI impI)
        fix l assume "l < length (x # xs)"
        then show "fle ((x # xs) ! Suc j) ((x # xs) ! l)"
          using jx later(5) by (cases l) (simp_all add: flt_imp_fle)
      qed
      have "Suc j < length (x # xs) \<and> argmin_scan (x # xs) i bv bi = i + Suc j"
        using later(1,2) step by simp
      with a b c show ?thesis by blast
    qed
  qed
qed

lemma argmin1_first_min:
  assumes "ds \<noteq> []" and "\<forall>x \<in> set ds. \<not> isnan x"
  shows "argmin1 ds < length ds \<and>
         (\<forall>l<length ds. fle (ds ! argmin1 ds) (ds ! l)) \<and>
         (\<forall>l<argmin1 ds. flt (ds ! argmin1 ds) (ds ! l))"
proof -
  obtain x xs where ds: "ds = x # xs"
    using assms(1) by (cases ds) auto
  have x: "\<not> isnan x" and xs: "\<forall>y \<in> set xs. \<not> isnan y"
    using assms(2) by (simp_all add: ds)
  from argmin_scan_spec [OF x xs, of 1 0]
  consider (keep) "argmin_scan xs 1 x 0 = 0" "\<forall>y \<in> set xs. fle x y"
    | (later) j where "j < length xs" "argmin_scan xs 1 x 0 = 1 + j"
        "flt (xs ! j) x" "\<forall>l<j. flt (xs ! j) (xs ! l)" "\<forall>l<length xs. fle (xs ! j) (xs ! l)"
    by auto
  then show ?thesis
  proof cases
    case keep
    have "\<forall>l<length ds. fle (ds ! 0) (ds ! l)"
    proof (intro allI impI)
      fix l assume "l < length ds"
      then show "fle (ds ! 0) (ds ! l)"
        using keep(2) x by (cases l) (simp_all add: ds fle_refl)
    qed
    then show ?thesis using keep(1) by (simp add: ds)
  next
    case later
    have r: "argmin1 ds = Suc j"
      using later(2) by (simp add: ds)
    have b: "\<forall>l<Suc j. flt (ds ! Suc j) (ds ! l)"
    proof (intro allI impI)
      fix l assume "l < Suc j"
      then show "flt (ds ! Suc j) (ds ! l)"
        using later(3,4) by (cases l) (simp_all add: ds)
    qed
    have c: "\<forall>l<length ds. fle (ds ! Suc j) (ds ! l)"
    proof (intro allI impI)
      fix l assume "l < length ds"
      then show "fle (ds ! Suc j) (ds ! l)"
        using later(3,5) by (cases l) (simp_all add: ds flt_imp_fle)
    qed
    show ?thesis
      unfolding r using later(1) b c by (simp add: ds)
  qed
qed

text \<open>Over a row that holds a not-a-number the scan ends at the first one.\<close>

lemma argmin_scan_nan_best: "isnan bv \<Longrightarrow> argmin_scan xs i bv bi = bi"
  by (induction xs arbitrary: i) simp_all

lemma argmin_scan_first_nan:
  assumes "\<not> isnan bv" and "j < length xs" and "isnan (xs ! j)"
    and "\<forall>l<j. \<not> isnan (xs ! l)"
  shows "argmin_scan xs i bv bi = i + j"
  using assms
proof (induction xs arbitrary: i bv bi j)
  case Nil
  then show ?case by simp
next
  case (Cons x xs)
  show ?case
  proof (cases j)
    case 0
    with Cons.prems have "isnan x" by simp
    with Cons.prems(1) 0 show ?thesis
      by (simp add: argmin_scan_nan_best)
  next
    case (Suc j')
    from Cons.prems(4) Suc have x: "\<not> isnan x"
      by auto
    have rest: "j' < length xs" "isnan (xs ! j')" "\<forall>l<j'. \<not> isnan (xs ! l)"
      using Cons.prems(2,3,4) Suc by auto
    have "argmin_scan xs (Suc i) v b = Suc i + j'" if "\<not> isnan v" for v b
      using Cons.IH [OF that rest] .
    with x Cons.prems(1) Suc show ?thesis
      by simp
  qed
qed

lemma argmin1_first_nan:
  assumes "j < length ds" and "isnan (ds ! j)" and "\<forall>l<j. \<not> isnan (ds ! l)"
  shows "argmin1 ds = j"
proof -
  obtain x xs where ds: "ds = x # xs"
    using assms(1) by (cases ds) auto
  show ?thesis
  proof (cases j)
    case 0
    with assms(2) show ?thesis
      by (simp add: ds argmin_scan_nan_best)
  next
    case (Suc j')
    from assms(3) Suc have x: "\<not> isnan x"
      by (auto simp: ds)
    have rest: "j' < length xs" "isnan (xs ! j')" "\<forall>l<j'. \<not> isnan (xs ! l)"
      using assms Suc by (auto simp: ds)
    show ?thesis
      using argmin_scan_first_nan [OF x rest, of 1 0] Suc by (simp add: ds)
  qed
qed

lemma nan_tie_distances:
  "compute_distances exact32 [Fin 1] [[Fin 0], [Fin 2], [NaN]] = [Fin 1, Fin 1, NaN]"
  by (simp add: compute_distances_def exact32_eval del: fsqrt.simps(1))

lemma nan_tie_assignment:
  "assign_clusters exact32 [[Fin 1]] [[Fin 0], [Fin 2], [NaN]] = Inr [2]"
  by (simp add: assign_clusters_def argmin_def nan_tie_distances)

text \<open>
  Claim C5, as the code has it. When none of the distances of an embedding is
  not-a-number and the distance to centroid \<open>i\<close> is minimal (no distance is smaller),
  the embedding is assigned to the lowest index at that distance: the assigned index is
  at most \<open>i\<close>, its distance equals that of \<open>i\<close>, and every lower index is strictly
  farther; with two or more centroids at the minimal distance this is the lowest of
  them. When the distance to some centroid \<open>i\<close> is not-a-number, the embedding is
  assigned to the lowest index whose distance is not-a-number, whatever the other
  distances are.
\<close>

theorem assign_clusters_lowest_index:
  assumes "n < length embeddings" and "i < length centroids"
  shows
    "((\<forall>l<length centroids. \<not> isnan (compute_distances B (embeddings ! n) centroids ! l)) \<and>
      (\<forall>l<length centroids.
          \<not> flt (compute_distances B (embeddings ! n) centroids ! l)
                (compute_distances B (embeddings ! n) centroids ! i)) \<longrightarrow>
      (\<exists>a. assign_clusters B embeddings centroids = Inr a \<and> a ! n \<le> i \<and>
           feq (compute_distances B (embeddings ! n) centroids ! (a ! n))
               (compute_distances B (embeddings ! n) centroids ! i) \<and>
           (\<forall>l<a ! n. flt (compute_distances B (embeddings ! n) centroids ! i)
                          (compute_distances B (embeddings ! n) centroids ! l)))) \<and>
     (isnan (compute_distances B (embeddings ! n) centroids ! i) \<longrightarrow>
      (\<exists>a. assign_clusters B embeddings centroids = Inr a \<and> a ! n \<le> i \<and>
           isnan (compute_distances B (embeddings ! n) centroids ! (a ! n)) \<and>
           (\<forall>l<a ! n. \<not> isnan (compute_distances B (embeddings ! n) centroids ! l))))"
proof -
  let ?ds = "compute_distances B (embeddings ! n) centroids"
  let ?a = "map (\<lambda>e. argmin1 (compute_distances B e centroids)) embeddings"
  let ?r = "argmin1 ?ds"
  have len: "length ?ds = length centroids"
    by (simp add: compute_distances_def)
  have run: "assign_clusters B embeddings centroids = Inr ?a"
    using assms(2) by (auto simp: assign_clusters_def argmin_def comp_def)
  have an: "?a ! n = ?r"
    using assms(1) by simp
  have nonempty: "?ds \<noteq> []"
    using assms(2) len by auto
  have ordered: "?r \<le> i \<and> feq (?ds ! ?r) (?ds ! i) \<and> (\<forall>l<?r. flt (?ds ! i) (?ds ! l))"
    if free: "\<forall>l<length centroids. \<not> isnan (?ds ! l)"
      and least_i: "\<forall>l<length centroids. \<not> flt (?ds ! l) (?ds ! i)"
  proof -
    have no_nan: "\<forall>x \<in> set ?ds. \<not> isnan x"
      using free len by (auto simp: in_set_conv_nth)
    from argmin1_first_min [OF nonempty no_nan]
    have r: "?r < length ?ds" and least: "\<forall>l<length ?ds. fle (?ds ! ?r) (?ds ! l)"
      and first: "\<forall>l<?r. flt (?ds ! ?r) (?ds ! l)"
      by simp_all
    have ri: "fle (?ds ! ?r) (?ds ! i)"
      using least assms(2) len by simp
    have ir: "fle (?ds ! i) (?ds ! ?r)"
      using free least_i r assms(2) len by (intro not_flt_imp_fle) simp_all
    have eq: "feq (?ds ! ?r) (?ds ! i)"
      using fle_antisym [OF ri ir] .
    have le: "?r \<le> i"
    proof (rule ccontr)
      assume "\<not> ?r \<le> i"
      then have "flt (?ds ! ?r) (?ds ! i)"
        using first by simp
      with ir show False
        by (simp add: fle_not_flt)
    qed
    have lower: "\<forall>l<?r. flt (?ds ! i) (?ds ! l)"
      using first ir by (auto intro: fle_flt_trans)
    from le eq lower show ?thesis by simp
  qed
  have nan: "?r \<le> i \<and> isnan (?ds ! ?r) \<and> (\<forall>l<?r. \<not> isnan (?ds ! l))"
    if "isnan (?ds ! i)"
  proof -
    define j where "j = (LEAST l. isnan (?ds ! l))"
    have j: "isnan (?ds ! j)"
      unfolding j_def using that by (rule LeastI)
    have ji: "j \<le> i"
      unfolding j_def using that by (rule Least_le)
    have before: "\<forall>l<j. \<not> isnan (?ds ! l)"
      unfolding j_def by (auto dest: not_less_Least)
    have "j < length ?ds"
      using ji assms(2) len by simp
    from argmin1_first_nan [OF this j before] have "?r = j" .
    with j ji before show ?thesis by simp
  qed
  show ?thesis
  proof (intro conjI impI)
    assume "(\<forall>l<length centroids. \<not> isnan (?ds ! l)) \<and>
      (\<forall>l<length centroids. \<not> flt (?ds ! l) (?ds ! i))"
    then have "?r \<le> i \<and> feq (?ds ! ?r) (?ds ! i) \<and> (\<forall>l<?r. flt (?ds ! i) (?ds ! l))"
      using ordered by simp
    with run an show "\<exists>a. assign_clusters B embeddings centroids = Inr a \<and> a ! n \<le> i \<and>
        feq (?ds ! (a ! n)) (?ds ! i) \<and> (\<forall>l<a ! n. flt (?ds ! i) (?ds ! l))"
      by (intro exI [of _ ?a]) (simp only: simp_thms, blast)
  next
    assume "isnan (?ds ! i)"
    then have "?r \<le> i \<and> isnan (?ds ! ?r) \<and> (\<forall>l<?r. \<not> isnan (?ds ! l))"
      by (rule nan)
    with run an show "\<exists>a. assign_clusters B embeddings centroids = Inr a \<and> a ! n \<le> i \<and>
        isnan (?ds ! (a ! n)) \<and> (\<forall>l<a ! n. \<not> isnan (?ds ! l))"
      by (intro exI [of _ ?a]) (simp only: simp_thms, blast)
  qed
qed

theorem assign_clusters_lowest_index_witness:
  "compute_distances exact32 [Fin 1, Fin 0] [[Fin 0, Fin 0], [Fin 2, Fin 0]] =
     [Fin 1, Fin 1] \<and>
   \<not> isnan (Fin 1) \<and> \<not> flt (Fin 1) (Fin 1) \<and>
   assign_clusters exact32 [[Fin 1, Fin 0]] [[Fin 0, Fin 0], [Fin 2, Fin 0]] = Inr [0] \<and>
   [0 :: nat] ! 0 \<le> 1 \<and> feq ([Fin 1, Fin 1] ! 0) ([Fin 1, Fin 1] ! 1) \<and>
   compute_distances exact32 [Fin 1] [[Fin 0], [Fin 2], [NaN]] = [Fin 1, Fin 1, NaN] \<and>
   isnan ([Fin 1, Fin 1, NaN] ! 2) \<and>
   assign_clusters exact32 [[Fin 1]] [[Fin 0], [Fin 2], [NaN]] = Inr [2] \<and>
   [2 :: nat] ! 0 \<le> 2 \<and> isnan ([Fin 1, Fin 1, NaN] ! ([2 :: nat] ! 0))"
proof -
  let ?ds = "compute_distances exact32 ([[Fin 1, Fin 0]] ! 0) [[Fin 0, Fin 0], [Fin 2, Fin 0]]"
  have ds: "?ds = [Fin 1, Fin 1]"
    by (simp add: tie_distances)
  have free: "\<forall>l<length [[Fin 0, Fin 0], [Fin 2, Fin 0 :: fval]]. \<not> isnan (?ds ! l)"
    unfolding ds by (auto simp: less_Suc_eq)
  have least: "\<forall>l<length [[Fin 0, Fin 0], [Fin 2, Fin 0 :: fval]]. \<not> flt (?ds ! l) (?ds ! 1)"
    unfolding ds by (auto simp: less_Suc_eq)
  from assign_clusters_lowest_index
      [of 0 "[[Fin 1, Fin 0]]" 1 "[[Fin 0, Fin 0], [Fin 2, Fin 0]]" exact32] free least
  have tie: "\<exists>a. assign_clusters exact32 [[Fin 1, Fin 0]] [[Fin 0, Fin 0], [Fin 2, Fin 0]] =
      Inr a \<and> a ! 0 \<le> 1 \<and> feq (?ds ! (a ! 0)) (?ds ! 1)"
    by auto
  let ?ns = "compute_distances exact32 ([[Fin 1]] ! 0) [[Fin 0], [Fin 2], [NaN]]"
  have ns: "?ns = [Fin 1, Fin 1, NaN]"
    by (simp add: nan_tie_distances)
  have "isnan (?ns ! 2)"
    unfolding ns by simp
  with assign_clusters_lowest_index [of 0 "[[Fin 1]]" 2 "[[Fin 0], [Fin 2], [NaN]]" exact32]
  have nan: "\<exists>a. assign_clusters exact32 [[Fin 1]] [[Fin 0], [Fin 2], [NaN]] = Inr a \<and>
      a ! 0 \<le> 2 \<and> isnan (?ns ! (a ! 0))"
    by auto
  from tie nan show ?thesis
    by (simp add: tie_distances tie_assignment nan_tie_distances nan_tie_assignment feq_def)
qed

text \<open>
  The claim as stated, for every centroid collection, fails where a distance is
  not-a-number: centroids \<open>0\<close> and \<open>1\<close> are both at the least distance \<open>1\<close> from the
  point, and the point is assigned to index \<open>2\<close>, whose distance is not-a-number.
\<close>

theorem assign_clusters_nan_tie:
  "compute_distances exact32 [Fin 1] [[Fin 0], [Fin 2], [NaN]] = [Fin 1, Fin 1, NaN] \<and>
   assign_clusters exact32 [[Fin 1]] [[Fin 0], [Fin 2], [NaN]] = Inr [2]"
  by (simp add: assign_clusters_def argmin_def compute_distances_def exact32_eval
      del: fsqrt.simps(1))

subsection \<open>The update step\<close>

lemma length_update_centroids: "length (update_centroids B es as k) = K"
  by (simp add: update_centroids_def)

lemma masked_empty_cluster:
  assumes "length as = length es" and "i \<notin> set as"
  shows "map2 (\<lambda>m row. if m then row else z row) (map (\<lambda>a. a = i) as) es = map z es"
  using assms by (induction as es rule: list_induct2) auto

lemma fadd_zero: "fadd B (Fin 0) (Fin 0) = Fin 0"
  by (simp add: fin_zero)

lemma reduce_zeros:
  "\<forall>i \<in> set (elems p). xs ! i = Fin 0 \<Longrightarrow> reduce B xs p = Fin 0"
  by (induction p) (simp_all add: fin_zero)

lemma fsum_zeros:
  assumes "\<forall>x \<in> set xs. x = Fin 0"
  shows "fsum B xs = Fin 0"
  unfolding fsum_def
  using assms by (intro reduce_zeros) (simp add: order_elems)

lemma sum_axis0_zeros:
  assumes "\<forall>e \<in> set es. length e = D" and "es \<noteq> []"
  shows "sum_axis0 B (map (map (\<lambda>_. Fin 0)) es) = replicate D (Fin 0)"
proof -
  have cols: "ncols (map (map (\<lambda>_. Fin 0)) es) = D"
    using assms by (cases es) (simp_all add: ncols_def)
  have "fsum B (map (\<lambda>row. row ! d) (map (map (\<lambda>_. Fin 0)) es)) = Fin 0" if "d < D" for d
    using assms(1) that by (intro fsum_zeros) auto
  then show ?thesis
    unfolding sum_axis0_def cols by (auto simp: list_eq_iff_nth_eq)
qed

text \<open>
  Claim C9. For a cluster index that no embedding is assigned to, \<open>update_centroid\<close>
  divides a zero-sum vector by a zero count: every component of the centroid is
  \<open>0 / 0\<close>, not-a-number, whatever the embeddings hold. This is the centroid the update
  step returns at every such index below \<open>K\<close>. The update step takes neither the
  previous centroids nor a key, so it can neither retain nor re-seed.
\<close>

theorem update_centroids_empty_cluster:
  assumes "\<forall>e \<in> set embeddings. length e = D" and "embeddings \<noteq> []"
    and "length assignments = length embeddings"
    and "i \<notin> set assignments"
  shows "update_centroid B embeddings assignments i = replicate D (fdiv B (Fin 0) (Fin 0)) \<and>
         update_centroid B embeddings assignments i = replicate D NaN \<and>
         (i < K \<longrightarrow> update_centroids B embeddings assignments k ! i = replicate D NaN)"
proof -
  have count: "filter id (map (\<lambda>a. a = i) assignments) = []"
    using assms(4) by (induction assignments) auto
  have "update_centroid B embeddings assignments i = replicate D NaN"
    unfolding update_centroid_def Let_def count
    by (simp add: masked_empty_cluster [OF assms(3,4)] sum_axis0_zeros [OF assms(1,2)]
        fin_zero)
  then show ?thesis
    by (simp add: update_centroids_def)
qed

theorem update_centroids_empty_cluster_witness:
  "list_all (\<lambda>e. length e = 2) example_embeddings \<and> example_embeddings \<noteq> [] \<and>
   length [0, 0, 0, 0 :: nat] = length example_embeddings \<and>
   (1::nat) \<notin> set [0, 0, 0, 0] \<and>
   update_centroid exact32 example_embeddings [0, 0, 0, 0] 1 = [NaN, NaN] \<and> 1 < K \<and>
   update_centroids exact32 example_embeddings [0, 0, 0, 0] 2 ! 1 = [NaN, NaN]"
  using update_centroids_empty_cluster [of example_embeddings 2 "[0, 0, 0, 0]" 1 exact32 2]
  by (simp add: example_embeddings_def K_def numeral_2_eq_2)

text \<open>
  Claim C2 at the input \<open>k = 3\<close> with three embeddings, one per cluster: the update step
  returns two centroids where the claim (and the docstring: "K (int): The number of
  clusters") says three; cluster \<open>2\<close> gets no centroid. The number of centroids is the
  module-level \<open>K\<close>, whatever \<open>k\<close> is (\<open>length_update_centroids\<close>).
\<close>

theorem update_centroids_ignores_k:
  "update_centroids exact32 [[Fin 0], [Fin 3], [Fin 6]] [0, 1, 2] 3 = [[Fin 0], [Fin 3]]"
  by (simp add: update_centroids_def update_centroid_def K_def exact32_eval upt_conv_Cons)

subsection \<open>The run on a dataset of at least \<open>K\<close> embeddings\<close>

text \<open>
  With a sound random source, a seed that is a 64-bit integer, at least \<open>K\<close>
  embeddings and at least one iteration, the run returns: \<open>K\<close> centroids and one
  assignment per embedding. The example source is sound.
\<close>

lemma example_random_shuffles: "shuffles example_random"
  by (auto simp: shuffles_def example_random_def)

lemma assign_clusters_nonempty:
  "cs \<noteq> [] \<Longrightarrow>
   assign_clusters B es cs = Inr (map (\<lambda>e. argmin1 (compute_distances B e cs)) es)"
  by (simp add: assign_clusters_def argmin_def comp_def)

lemma kmeans_loop_returns:
  assumes "c \<noteq> []"
  shows "\<exists>c' a'. kmeans_loop B (Suc n) es k (c, a) = Inr (c', Some a') \<and>
           length c' = K \<and> length a' = length es"
  using assms
proof (induction n arbitrary: c a)
  case 0
  then show ?case
    by (simp add: assign_clusters_nonempty length_update_centroids)
next
  case (Suc n)
  let ?a = "map (\<lambda>e. argmin1 (compute_distances B e c)) es"
  let ?c = "update_centroids B es ?a k"
  have "?c \<noteq> []"
    using length_update_centroids [of B es ?a k] by (auto simp: K_def)
  from Suc.IH [OF this, of "Some ?a"] show ?case
    using Suc.prems by (simp add: assign_clusters_nonempty)
qed

lemma kmeans_returns:
  assumes "shuffles rnd" and "K \<le> length embeddings" and "1 \<le> num_iters"
    and "- (2 ^ 63) \<le> seed" and "seed < 2 ^ 63"
  shows "\<exists>c a. kmeans B rnd embeddings k num_iters seed = Inr (c, a) \<and>
           length c = K \<and> length a = length embeddings"
proof -
  obtain n where n: "nat num_iters = Suc n"
    using assms(3) by (cases "nat num_iters") auto
  have key: "PRNGKey rnd seed = Inr (key_of_seed rnd seed)"
    using assms(4,5) by (simp add: PRNGKey_def)
  from initialize_centroids_distinct [OF assms(1,2), of k "key_of_seed rnd seed"]
  obtain indices where init:
      "initialize_centroids rnd embeddings k (key_of_seed rnd seed) =
         Inr (map (\<lambda>i. embeddings ! i) indices)"
    and len: "length indices = K"
    by blast
  have "map (\<lambda>i. embeddings ! i) indices \<noteq> []"
    using len by (auto simp: K_def)
  from kmeans_loop_returns [OF this, of B n embeddings k None]
  show ?thesis
    by (auto simp: kmeans_def key init n simp del: kmeans_loop.simps)
qed

end
